theory Spec2Isabelle
  imports Main "HOL-Library.Word"
begin

section \<open>Maximal independent set (apps/independentset/IndependentSet.cpp)\<close>

text \<open>
  A graph node handle (\<^verbatim>\<open>GNode\<close>) of the CSR graph is the index of the node; the graph
  iterates them from \<open>0\<close> to \<open>numNodes - 1\<close>.
\<close>

type_synonym GNode = nat

datatype MatchFlag = UNMATCHED | OTHER_MATCHED | MATCHED

text \<open>\<^verbatim>\<open>struct Node\<close>; the field \<^verbatim>\<open>id\<close> is written \<open>id_n\<close>.\<close>

record Node =
  id_n :: "32 word"
  flag :: MatchFlag
  pendingFlag :: MatchFlag

text \<open>
  The global \<^verbatim>\<open>Graph graph\<close> (\<^verbatim>\<open>LC_CSR_Graph<Node,void>\<close>): the number of nodes, the
  destinations of the edges of each node in CSR order (\<^verbatim>\<open>edge_begin\<close> to \<^verbatim>\<open>edge_end\<close>,
  read with \<^verbatim>\<open>getEdgeDst\<close>), and the node data as a store from node handles to
  \<open>Node\<close> values. The topology is fixed after load; only \<open>getData\<close> is ever updated.
\<close>

record Graph =
  numNodes :: nat
  edges :: "GNode \<Rightarrow> GNode list"
  getData :: "GNode \<Rightarrow> Node"

text \<open>The edge loop of \<^verbatim>\<open>Process::build\<close>: the first MATCHED destination returns false.\<close>

fun build_loop :: "(GNode \<Rightarrow> Node) \<Rightarrow> GNode list \<Rightarrow> bool" where
  "build_loop d [] = True"
| "build_loop d (dst # es) = (if flag (d dst) = MATCHED then False else build_loop d es)"

definition build :: "Graph \<Rightarrow> GNode \<Rightarrow> bool" where
  "build g src =
     (if flag (getData g src) \<noteq> UNMATCHED then False
      else build_loop (getData g) (edges g src))"

text \<open>The edge loop of \<^verbatim>\<open>Process::modify\<close>: every destination's flag is overwritten.\<close>

fun modify_loop :: "(GNode \<Rightarrow> Node) \<Rightarrow> GNode list \<Rightarrow> (GNode \<Rightarrow> Node)" where
  "modify_loop d [] = d"
| "modify_loop d (dst # es) = modify_loop (d(dst := (d dst)\<lparr>flag := OTHER_MATCHED\<rparr>)) es"

definition modify :: "Graph \<Rightarrow> GNode \<Rightarrow> Graph" where
  "modify g src =
     (let d = modify_loop (getData g) (edges g src)
      in g\<lparr>getData := d(src := (d src)\<lparr>flag := MATCHED\<rparr>)\<rparr>)"

text \<open>The serial operator \<^verbatim>\<open>Process::operator()(GNode src)\<close>.\<close>

definition Process :: "Graph \<Rightarrow> GNode \<Rightarrow> Graph" where
  "Process g src = (if build g src then modify g src else g)"

text \<open>\<^verbatim>\<open>SerialAlgo\<close>: \<^verbatim>\<open>std::for_each\<close> over the nodes in ascending order.\<close>

definition SerialAlgo :: "Graph \<Rightarrow> Graph" where
  "SerialAlgo g = foldl Process g [0..<numNodes g]"

text \<open>The two edge loops of \<^verbatim>\<open>is_bad\<close>.\<close>

fun double_match_loop :: "(GNode \<Rightarrow> Node) \<Rightarrow> GNode \<Rightarrow> GNode list \<Rightarrow> bool" where
  "double_match_loop d n [] = False"
| "double_match_loop d n (dst # es) =
     (if dst \<noteq> n \<and> flag (d dst) = MATCHED then True else double_match_loop d n es)"

fun ok_loop :: "(GNode \<Rightarrow> Node) \<Rightarrow> bool \<Rightarrow> GNode list \<Rightarrow> bool" where
  "ok_loop d ok [] = ok"
| "ok_loop d ok (dst # es) =
     ok_loop d (if flag (d dst) \<noteq> UNMATCHED then True else ok) es"

definition is_bad :: "Graph \<Rightarrow> GNode \<Rightarrow> bool" where
  "is_bad g n =
     (if flag (getData g n) = MATCHED then double_match_loop (getData g) n (edges g n)
      else if flag (getData g n) = UNMATCHED then
        (if \<not> ok_loop (getData g) False (edges g n) then True else False)
      else False)"

definition is_matched :: "Graph \<Rightarrow> GNode \<Rightarrow> bool" where
  "is_matched g n = (flag (getData g n) = MATCHED)"

text \<open>
  \<^verbatim>\<open>verify\<close>: \<^verbatim>\<open>find_if\<close> over all nodes finds no bad node. \<^verbatim>\<open>count_if\<close> with
  \<^verbatim>\<open>is_matched\<close> is the cardinality that \<^verbatim>\<open>main\<close> prints.
\<close>

definition verify :: "Graph \<Rightarrow> bool" where
  "verify g = (find (is_bad g) [0..<numNodes g] = None)"

definition cardinality :: "Graph \<Rightarrow> nat" where
  "cardinality g = length (filter (is_matched g) [0..<numNodes g])"

text \<open>
  The state \<^verbatim>\<open>main\<close> builds before running the algorithm: every node is constructed
  by \<^verbatim>\<open>Node()\<close> (both flags UNMATCHED) and then gets its index as \<^verbatim>\<open>id\<close>.
\<close>

definition initial_graph :: "nat \<Rightarrow> (GNode \<Rightarrow> GNode list) \<Rightarrow> Graph" where
  "initial_graph n es =
     \<lparr>numNodes = n, edges = es,
      getData = (\<lambda>v. \<lparr>id_n = of_nat v, flag = UNMATCHED, pendingFlag = UNMATCHED\<rparr>)\<rparr>"

text \<open>The undirected path 0 - 1 - 2 - 3 - 4, every edge stored in both directions.\<close>

definition path5_edges :: "GNode \<Rightarrow> GNode list" where
  "path5_edges v =
     (if v = 0 then [1] else if v = 1 then [0, 2] else if v = 2 then [1, 3]
      else if v = 3 then [2, 4] else if v = 4 then [3] else [])"

definition path5 :: Graph where
  "path5 = initial_graph 5 path5_edges"

text \<open>A single node with an edge to itself.\<close>

definition loop1 :: Graph where
  "loop1 = initial_graph 1 (\<lambda>v. if v = 0 then [0] else [])"

section \<open>Distributed BFS (exp/apps/compiler_outputs/bfs_push-filter/gen.cpp)\<close>

subsection \<open>Data\<close>

text \<open>
  \<^verbatim>\<open>struct NodeData\<close>: both fields are \<^verbatim>\<open>unsigned int\<close>, 32-bit words whose addition
  wraps around. \<open>infinity\<close> is \<^verbatim>\<open>std::numeric_limits<unsigned int>::max()/4\<close>, and
  \<open>4294967295\<close> is \<^verbatim>\<open>std::numeric_limits<unsigned int>::max()\<close>.
\<close>

record NodeData =
  dist_current :: "32 word"
  dist_old :: "32 word"

definition infinity :: "32 word" where
  "infinity = 4294967295 div 4"

text \<open>The command line options the program reads: \<^verbatim>\<open>maxIterations\<close> and \<^verbatim>\<open>srcNodeId\<close>.\<close>

record Options =
  maxIterations :: "32 word"
  src_node :: "32 word"

text \<open>
  Modelled from the spec: the partitioned graph \<^verbatim>\<open>hGraph<NodeData, void>\<close> of one host
  (the header Galois/Runtime/hGraph.h is absent from the repository's sources). \<^verbatim>\<open>begin()\<close> to
  \<^verbatim>\<open>end()\<close> ranges over the local masters, the local ids \<open>0 ..< numOwned\<close>; the
  mirrors this host materialises come with the host and local id of their master
  (\<open>mirrors\<close>: mirror local id, master host, master local id); \<open>edgeDst\<close> gives the
  destinations of a node's outgoing edges in CSR order, \<open>getGID\<close> the global id, and
  \<open>nodeData\<close> is the store of the per-node data. The record also holds this host's
  value of the static \<^verbatim>\<open>BFS::DGAccumulator_accum\<close>, a \<^verbatim>\<open>DGAccumulator<int>\<close>: it is
  reset at the start of every round and incremented at most once per local master, so
  it is kept as an integer without wrap-around.
\<close>

record Host =
  numOwned :: nat
  edgeDst :: "GNode \<Rightarrow> GNode list"
  getGID :: "GNode \<Rightarrow> 32 word"
  mirrors :: "(GNode \<times> nat \<times> GNode) list"
  nodeData :: "GNode \<Rightarrow> NodeData"
  DGAccumulator_accum :: int

text \<open>
  The whole distributed run: hosts \<open>0 ..< numHosts\<close>. The collective operations
  (\<^verbatim>\<open>sync_push\<close>, \<^verbatim>\<open>sync_pull\<close>, \<^verbatim>\<open>reduce\<close>) are steps of the system; between them
  every host computes on its own state.
\<close>

record System =
  numHosts :: nat
  host :: "nat \<Rightarrow> Host"

definition on_hosts :: "(Host \<Rightarrow> Host) \<Rightarrow> System \<Rightarrow> System" where
  "on_hosts f sys =
     sys\<lparr>host := (\<lambda>h. if h < numHosts sys then f (host sys h) else host sys h)\<rparr>"

definition set_node :: "System \<Rightarrow> nat \<Rightarrow> GNode \<Rightarrow> NodeData \<Rightarrow> System" where
  "set_node sys h v nd =
     sys\<lparr>host := (host sys)(h := (host sys h)\<lparr>nodeData := (nodeData (host sys h))(v := nd)\<rparr>)\<rparr>"


subsection \<open>Runtime operations the program calls\<close>

text \<open>
  Modelled from the spec: \<^verbatim>\<open>Galois::atomicMin\<close> (its header is absent from the
  repository's sources), the atomic update \<open>t.dist_current \<leftarrow> min(t.dist_current, new_dist)\<close>; the
  function gives the new value of the field.
\<close>

definition atomicMin :: "32 word \<Rightarrow> 32 word \<Rightarrow> 32 word" where
  "atomicMin a b = min a b"

text \<open>
  Modelled from the spec: \<^verbatim>\<open>Galois::do_all\<close> applies the operator once to every element
  of the range. The parallel loop is taken in one sequential schedule, ascending ids;
  the only writes to shared data are atomic minima.
\<close>

definition do_all :: "nat \<Rightarrow> ('s \<Rightarrow> GNode \<Rightarrow> 's) \<Rightarrow> 's \<Rightarrow> 's" where
  "do_all n f g = foldl f g [0..<n]"

text \<open>
  Modelled from the spec: the cross-host accumulator. \<^verbatim>\<open>reset()\<close> clears the local
  value; \<^verbatim>\<open>reduce()\<close> is an all-reduce with sum over the hosts and returns the global
  value.
\<close>

definition DGAccumulator_reset :: "Host \<Rightarrow> Host" where
  "DGAccumulator_reset g = g\<lparr>DGAccumulator_accum := 0\<rparr>"

definition DGAccumulator_reduce :: "System \<Rightarrow> int" where
  "DGAccumulator_reduce sys =
     sum_list (map (\<lambda>h. DGAccumulator_accum (host sys h)) [0..<numHosts sys])"


subsection \<open>The synchronizer descriptors\<close>

text \<open>
  \<^verbatim>\<open>Syncer_0\<close> and \<^verbatim>\<open>SyncerPull_0\<close>, CPU personality. \<^verbatim>\<open>FirstItr_BFS::go\<close> and
  \<^verbatim>\<open>BFS::go\<close> declare them with the same text. \<^verbatim>\<open>reduce\<close> is \<^verbatim>\<open>Galois::min\<close> on the
  field, \<^verbatim>\<open>reset\<close> stores \<^verbatim>\<open>std::numeric_limits<unsigned int>::max()\<close>.
\<close>

definition Syncer_0_extract :: "GNode \<Rightarrow> NodeData \<Rightarrow> 32 word" where
  "Syncer_0_extract node_id node = dist_current node"

definition Syncer_0_reduce :: "GNode \<Rightarrow> NodeData \<Rightarrow> 32 word \<Rightarrow> NodeData" where
  "Syncer_0_reduce node_id node y = node\<lparr>dist_current := min (dist_current node) y\<rparr>"

definition Syncer_0_reset :: "GNode \<Rightarrow> NodeData \<Rightarrow> NodeData" where
  "Syncer_0_reset node_id node = node\<lparr>dist_current := 4294967295\<rparr>"

definition SyncerPull_0_extract :: "GNode \<Rightarrow> NodeData \<Rightarrow> 32 word" where
  "SyncerPull_0_extract node_id node = dist_current node"

definition SyncerPull_0_setVal :: "GNode \<Rightarrow> NodeData \<Rightarrow> 32 word \<Rightarrow> NodeData" where
  "SyncerPull_0_setVal node_id node y = node\<lparr>dist_current := y\<rparr>"

text \<open>
  Modelled from the spec: \<^verbatim>\<open>sync_push<Syncer_0>\<close> (declared in the absent hGraph.h). Each host, for every remote master it mirrors, extracts the mirror's value,
  resets the mirror, and ships the value to the master's host, which applies
  \<^verbatim>\<open>reduce\<close>. The batch variants return false on the CPU, so the scalar callbacks run.
\<close>

definition push_mirror :: "nat \<Rightarrow> GNode \<times> nat \<times> GNode \<Rightarrow> System \<Rightarrow> System" where
  "push_mirror h e sys =
     (case e of (r, mh, m) \<Rightarrow>
        let y = Syncer_0_extract r (nodeData (host sys h) r);
            sys1 = set_node sys h r (Syncer_0_reset r (nodeData (host sys h) r))
        in set_node sys1 mh m (Syncer_0_reduce m (nodeData (host sys1 mh) m) y))"

definition sync_push_host :: "nat \<Rightarrow> System \<Rightarrow> System" where
  "sync_push_host h sys = fold (push_mirror h) (mirrors (host sys h)) sys"

definition sync_push :: "System \<Rightarrow> System" where
  "sync_push sys = fold sync_push_host [0..<numHosts sys] sys"

text \<open>
  Modelled from the spec: \<^verbatim>\<open>sync_pull<SyncerPull_0>\<close>. Each master's current value is
  shipped to every host that mirrors it; the receiver calls \<^verbatim>\<open>setVal\<close>.
\<close>

definition pull_mirror :: "nat \<Rightarrow> GNode \<times> nat \<times> GNode \<Rightarrow> System \<Rightarrow> System" where
  "pull_mirror h e sys =
     (case e of (r, mh, m) \<Rightarrow>
        let y = SyncerPull_0_extract m (nodeData (host sys mh) m)
        in set_node sys h r (SyncerPull_0_setVal r (nodeData (host sys h) r) y))"

definition sync_pull_host :: "nat \<Rightarrow> System \<Rightarrow> System" where
  "sync_pull_host h sys = fold (pull_mirror h) (mirrors (host sys h)) sys"

definition sync_pull :: "System \<Rightarrow> System" where
  "sync_pull sys = fold sync_pull_host [0..<numHosts sys] sys"

text \<open>
  The partition contract: on every host the mirrors lie outside the range of the local
  masters, and the master of a mirror is a local master of an existing host.
\<close>

definition wf_partition :: "System \<Rightarrow> bool" where
  "wf_partition sys =
     list_all
       (\<lambda>h. list_all
               (\<lambda>e. case e of (r, mh, m) \<Rightarrow>
                  numOwned (host sys h) \<le> r \<and> mh < numHosts sys \<and> m < numOwned (host sys mh))
               (mirrors (host sys h)))
       [0..<numHosts sys]"


subsection \<open>The operators\<close>

text \<open>\<^verbatim>\<open>InitializeGraph::operator()\<close>.\<close>

definition InitializeGraph_op :: "Options \<Rightarrow> Host \<Rightarrow> GNode \<Rightarrow> Host" where
  "InitializeGraph_op opts g src =
     (let sdata = nodeData g src;
          sdata1 = sdata\<lparr>dist_current := (if getGID g src = src_node opts then 0 else infinity)\<rparr>;
          sdata2 = sdata1\<lparr>dist_old := (if getGID g src = src_node opts then 0 else infinity)\<rparr>
      in g\<lparr>nodeData := (nodeData g)(src := sdata2)\<rparr>)"

text \<open>
  The edge loop shared by \<^verbatim>\<open>FirstItr_BFS::operator()\<close> and \<^verbatim>\<open>BFS::operator()\<close>.
  \<^verbatim>\<open>snode\<close> is a reference into the store and \<^verbatim>\<open>dist_current\<close> is atomic, so
  \<^verbatim>\<open>snode.dist_current\<close> is read again in every iteration; the addition is the
  \<^verbatim>\<open>unsigned int\<close> one.
\<close>

fun relax_loop :: "(GNode \<Rightarrow> NodeData) \<Rightarrow> GNode \<Rightarrow> GNode list \<Rightarrow> (GNode \<Rightarrow> NodeData)" where
  "relax_loop d src [] = d"
| "relax_loop d src (dst # es) =
     (let new_dist = 1 + dist_current (d src)
      in relax_loop
           (d(dst := (d dst)\<lparr>dist_current := atomicMin (dist_current (d dst)) new_dist\<rparr>))
           src es)"

text \<open>\<^verbatim>\<open>FirstItr_BFS::operator()\<close>.\<close>

definition FirstItr_BFS_op :: "Host \<Rightarrow> GNode \<Rightarrow> Host" where
  "FirstItr_BFS_op g src =
     (let d = nodeData g;
          d1 = d(src := (d src)\<lparr>dist_old := dist_current (d src)\<rparr>)
      in g\<lparr>nodeData := relax_loop d1 src (edgeDst g src)\<rparr>)"

text \<open>\<^verbatim>\<open>BFS::operator()\<close>.\<close>

definition BFS_op :: "Host \<Rightarrow> GNode \<Rightarrow> Host" where
  "BFS_op g src =
     (let d = nodeData g in
      if dist_old (d src) > dist_current (d src) then
        (let d1 = d(src := (d src)\<lparr>dist_old := dist_current (d src)\<rparr>);
             g1 = g\<lparr>DGAccumulator_accum := DGAccumulator_accum g + 1\<rparr>
         in g1\<lparr>nodeData := relax_loop d1 src (edgeDst g src)\<rparr>)
      else g)"

text \<open>
  The values of \<^verbatim>\<open>snode.dist_current\<close> that the edge loop reads, one per iteration, in
  the expression \<^verbatim>\<open>new_dist = 1 + snode.dist_current\<close>: each is read in the store that
  the loop has produced so far.
\<close>

fun relax_reads :: "(GNode \<Rightarrow> NodeData) \<Rightarrow> GNode \<Rightarrow> GNode list \<Rightarrow> 32 word list" where
  "relax_reads d src [] = []"
| "relax_reads d src (dst # es) =
     dist_current (d src) # relax_reads (relax_loop d src [dst]) src es"

definition FirstItr_BFS_reads :: "Host \<Rightarrow> GNode \<Rightarrow> 32 word list" where
  "FirstItr_BFS_reads g src =
     (let d = nodeData g;
          d1 = d(src := (d src)\<lparr>dist_old := dist_current (d src)\<rparr>)
      in relax_reads d1 src (edgeDst g src))"

definition BFS_reads :: "Host \<Rightarrow> GNode \<Rightarrow> 32 word list" where
  "BFS_reads g src =
     (let d = nodeData g in
      if dist_old (d src) > dist_current (d src) then
        (let d1 = d(src := (d src)\<lparr>dist_old := dist_current (d src)\<rparr>)
         in relax_reads d1 src (edgeDst g src))
      else [])"


subsection \<open>The phases of a run\<close>

text \<open>
  \<^verbatim>\<open>InitializeGraph::go\<close>, \<^verbatim>\<open>FirstItr_BFS::go\<close> and the body of the do-while loop of
  \<^verbatim>\<open>BFS::go\<close>: reset of the accumulator, \<^verbatim>\<open>do_all\<close> of the operator over the local
  masters, \<^verbatim>\<open>sync_push\<close>, \<^verbatim>\<open>sync_pull\<close>.
\<close>

definition InitializeGraph_go :: "Options \<Rightarrow> System \<Rightarrow> System" where
  "InitializeGraph_go opts sys =
     sync_pull (on_hosts (\<lambda>g. do_all (numOwned g) (InitializeGraph_op opts) g) sys)"

definition FirstItr_BFS_go :: "System \<Rightarrow> System" where
  "FirstItr_BFS_go sys =
     sync_pull (sync_push (on_hosts (\<lambda>g. do_all (numOwned g) FirstItr_BFS_op g) sys))"

definition BFS_round :: "System \<Rightarrow> System" where
  "BFS_round sys =
     sync_pull (sync_push
       (on_hosts (\<lambda>g. do_all (numOwned g) BFS_op (DGAccumulator_reset g)) sys))"


subsection \<open>Termination of the loop of \<^verbatim>\<open>BFS::go\<close>\<close>

text \<open>
  Every increment of the accumulator strictly lowers \<open>dist_old\<close> of one local master,
  and nothing in a round raises a \<open>dist_old\<close>. The sum of all \<open>dist_old\<close> over the
  masters of all hosts therefore drops in every round whose all-reduce is not 0.
\<close>

definition old_host :: "Host \<Rightarrow> nat" where
  "old_host g = (\<Sum>v<numOwned g. unat (dist_old (nodeData g v)))"

definition old_total :: "System \<Rightarrow> nat" where
  "old_total sys = (\<Sum>h<numHosts sys. old_host (host sys h))"

text \<open>What the synchronisation phases leave alone.\<close>

definition frame_eq :: "System \<Rightarrow> System \<Rightarrow> bool" where
  "frame_eq a b \<longleftrightarrow>
     numHosts a = numHosts b \<and>
     (\<forall>h. numOwned (host a h) = numOwned (host b h) \<and>
          mirrors (host a h) = mirrors (host b h) \<and>
          edgeDst (host a h) = edgeDst (host b h) \<and>
          getGID (host a h) = getGID (host b h) \<and>
          DGAccumulator_accum (host a h) = DGAccumulator_accum (host b h) \<and>
          (\<forall>v. dist_old (nodeData (host a h) v) = dist_old (nodeData (host b h) v)))"

lemma relax_loop_dist_old: "dist_old (relax_loop d src es v) = dist_old (d v)"
  by (induction es arbitrary: d) (auto simp: Let_def)

lemma sum_upd_nat:
  fixes f f' :: "nat \<Rightarrow> nat"
  assumes "s < n" and "\<And>v. v \<noteq> s \<Longrightarrow> f' v = f v"
  shows "(\<Sum>v<n. f' v) + f s = (\<Sum>v<n. f v) + f' s"
proof -
  have fin: "finite {..<n}" and mem: "s \<in> {..<n}" using assms by auto
  have "(\<Sum>v\<in>{..<n} - {s}. f' v) = (\<Sum>v\<in>{..<n} - {s}. f v)"
    by (rule sum.cong) (auto simp: assms(2))
  then have a: "(\<Sum>v<n. f' v) = f' s + (\<Sum>v\<in>{..<n} - {s}. f v)"
    using sum.remove [OF fin mem, of f'] by simp
  have b: "(\<Sum>v<n. f v) = f s + (\<Sum>v\<in>{..<n} - {s}. f v)"
    using sum.remove [OF fin mem, of f] by simp
  show ?thesis using a b by simp
qed

lemma BFS_op_numOwned: "numOwned (BFS_op g s) = numOwned g"
  by (simp add: BFS_op_def Let_def)

lemma BFS_op_accum_mono: "DGAccumulator_accum g \<le> DGAccumulator_accum (BFS_op g s)"
  by (simp add: BFS_op_def Let_def)

lemma BFS_op_dist_old:
  "dist_old (nodeData (BFS_op g s) v) =
     (if v = s \<and> dist_current (nodeData g s) < dist_old (nodeData g s)
      then dist_current (nodeData g s) else dist_old (nodeData g v))"
  by (simp add: BFS_op_def Let_def relax_loop_dist_old)

lemma BFS_op_measure:
  assumes "s < numOwned g"
  shows "int (old_host (BFS_op g s)) + DGAccumulator_accum (BFS_op g s)
           \<le> int (old_host g) + DGAccumulator_accum g"
proof (cases "dist_current (nodeData g s) < dist_old (nodeData g s)")
  case True
  let ?f = "\<lambda>v. unat (dist_old (nodeData g v))"
  let ?f' = "\<lambda>v. unat (dist_old (nodeData (BFS_op g s) v))"
  have "\<And>v. v \<noteq> s \<Longrightarrow> ?f' v = ?f v"
    by (simp add: BFS_op_dist_old)
  from sum_upd_nat [of s "numOwned g" ?f' ?f, OF assms this]
  have "old_host (BFS_op g s) + ?f s = old_host g + ?f' s"
    by (simp add: old_host_def BFS_op_numOwned)
  moreover have "?f' s < ?f s"
    using True by (simp add: BFS_op_dist_old word_less_nat_alt)
  moreover have "DGAccumulator_accum (BFS_op g s) = DGAccumulator_accum g + 1"
    using True by (simp add: BFS_op_def Let_def)
  ultimately show ?thesis by linarith
next
  case False
  then have "BFS_op g s = g" by (simp add: BFS_op_def Let_def)
  then show ?thesis by simp
qed

lemma foldl_BFS_op_measure:
  "\<forall>s\<in>set xs. s < numOwned g \<Longrightarrow>
   numOwned (foldl BFS_op g xs) = numOwned g \<and>
   DGAccumulator_accum g \<le> DGAccumulator_accum (foldl BFS_op g xs) \<and>
   int (old_host (foldl BFS_op g xs)) + DGAccumulator_accum (foldl BFS_op g xs)
     \<le> int (old_host g) + DGAccumulator_accum g"
proof (induction xs arbitrary: g)
  case Nil
  show ?case by simp
next
  case (Cons x xs)
  have x: "x < numOwned g" using Cons.prems by simp
  have "\<forall>s\<in>set xs. s < numOwned (BFS_op g x)"
    using Cons.prems by (simp add: BFS_op_numOwned)
  from Cons.IH [OF this] BFS_op_measure [OF x] BFS_op_accum_mono [of g x]
  show ?case by (simp add: BFS_op_numOwned)
qed

lemma do_all_BFS_measure:
  "numOwned (do_all (numOwned g) BFS_op (DGAccumulator_reset g)) = numOwned g \<and>
   0 \<le> DGAccumulator_accum (do_all (numOwned g) BFS_op (DGAccumulator_reset g)) \<and>
   int (old_host (do_all (numOwned g) BFS_op (DGAccumulator_reset g)))
     + DGAccumulator_accum (do_all (numOwned g) BFS_op (DGAccumulator_reset g))
     \<le> int (old_host g)"
proof -
  let ?g0 = "DGAccumulator_reset g"
  have n: "numOwned ?g0 = numOwned g" and a: "DGAccumulator_accum ?g0 = 0"
    and o: "old_host ?g0 = old_host g"
    by (simp_all add: DGAccumulator_reset_def old_host_def)
  have "\<forall>s\<in>set [0..<numOwned g]. s < numOwned ?g0" by (simp add: n)
  from foldl_BFS_op_measure [OF this] show ?thesis
    by (simp add: do_all_def n a o)
qed

lemma DGAccumulator_reduce_sum:
  "DGAccumulator_reduce sys = (\<Sum>h<numHosts sys. DGAccumulator_accum (host sys h))"
  by (simp add: DGAccumulator_reduce_def interv_sum_list_conv_sum_set_nat atLeast0LessThan)

lemma compute_phase_measure:
  fixes sys :: System
  defines "c \<equiv> on_hosts (\<lambda>g. do_all (numOwned g) BFS_op (DGAccumulator_reset g)) sys"
  shows "0 \<le> DGAccumulator_reduce c \<and>
         int (old_total c) + DGAccumulator_reduce c \<le> int (old_total sys)"
proof -
  have n: "numHosts c = numHosts sys" by (simp add: c_def on_hosts_def)
  have h: "\<And>h. h < numHosts sys \<Longrightarrow>
             host c h = do_all (numOwned (host sys h)) BFS_op (DGAccumulator_reset (host sys h))"
    by (simp add: c_def on_hosts_def)
  have nonneg: "0 \<le> DGAccumulator_reduce c"
    unfolding DGAccumulator_reduce_sum n
    by (rule sum_nonneg) (simp add: h do_all_BFS_measure)
  have "int (old_total c) + DGAccumulator_reduce c =
        (\<Sum>h<numHosts sys. int (old_host (host c h)) + DGAccumulator_accum (host c h))"
    by (simp add: old_total_def DGAccumulator_reduce_sum n sum.distrib)
  also have "\<dots> \<le> (\<Sum>h<numHosts sys. int (old_host (host sys h)))"
    by (rule sum_mono) (simp add: h do_all_BFS_measure)
  also have "\<dots> = int (old_total sys)"
    by (simp add: old_total_def)
  finally show ?thesis using nonneg by simp
qed

lemma frame_eq_refl: "frame_eq a a"
  by (simp add: frame_eq_def)

lemma frame_eq_trans: "frame_eq a b \<Longrightarrow> frame_eq b c \<Longrightarrow> frame_eq a c"
  by (simp add: frame_eq_def)

lemma set_node_frame:
  "dist_old nd = dist_old (nodeData (host sys h) v) \<Longrightarrow> frame_eq sys (set_node sys h v nd)"
  by (simp add: frame_eq_def set_node_def)

lemma fold_frame:
  "(\<And>x s. frame_eq s (f x s)) \<Longrightarrow> frame_eq s (fold f xs s)"
proof (induction xs arbitrary: s)
  case Nil
  show ?case by (simp add: frame_eq_refl)
next
  case (Cons x xs)
  have "frame_eq s (f x s)" by (rule Cons.prems)
  moreover have "frame_eq (f x s) (fold f xs (f x s))" by (rule Cons.IH) (rule Cons.prems)
  ultimately show ?case by (auto intro: frame_eq_trans)
qed

lemma push_mirror_frame: "frame_eq sys (push_mirror h e sys)"
proof (cases e)
  case (fields r mh m)
  let ?s1 = "set_node sys h r (Syncer_0_reset r (nodeData (host sys h) r))"
  have a: "frame_eq sys ?s1"
    by (rule set_node_frame) (simp add: Syncer_0_reset_def)
  have b: "frame_eq ?s1 (set_node ?s1 mh m
             (Syncer_0_reduce m (nodeData (host ?s1 mh) m)
                (Syncer_0_extract r (nodeData (host sys h) r))))"
    by (rule set_node_frame) (simp add: Syncer_0_reduce_def)
  from frame_eq_trans [OF a b] show ?thesis
    by (simp add: push_mirror_def fields Let_def)
qed

lemma pull_mirror_frame: "frame_eq sys (pull_mirror h e sys)"
proof (cases e)
  case (fields r mh m)
  show ?thesis
    unfolding pull_mirror_def fields prod.case Let_def
    by (rule set_node_frame) (simp add: SyncerPull_0_setVal_def)
qed

lemma sync_push_frame: "frame_eq sys (sync_push sys)"
  unfolding sync_push_def sync_push_host_def
  by (intro fold_frame push_mirror_frame)

lemma sync_pull_frame: "frame_eq sys (sync_pull sys)"
  unfolding sync_pull_def sync_pull_host_def
  by (intro fold_frame pull_mirror_frame)

lemma frame_eq_measure:
  "frame_eq a b \<Longrightarrow> old_total a = old_total b \<and> DGAccumulator_reduce a = DGAccumulator_reduce b"
  by (simp add: frame_eq_def old_total_def old_host_def DGAccumulator_reduce_sum)

lemma BFS_round_measure:
  "0 \<le> DGAccumulator_reduce (BFS_round sys) \<and>
   int (old_total (BFS_round sys)) + DGAccumulator_reduce (BFS_round sys) \<le> int (old_total sys)"
proof -
  let ?c = "on_hosts (\<lambda>g. do_all (numOwned g) BFS_op (DGAccumulator_reset g)) sys"
  have "frame_eq ?c (BFS_round sys)"
    unfolding BFS_round_def
    by (rule frame_eq_trans [OF sync_push_frame sync_pull_frame])
  from frame_eq_measure [OF this] compute_phase_measure [of sys]
  show ?thesis by simp
qed

lemma BFS_round_decreases:
  "DGAccumulator_reduce (BFS_round sys) \<noteq> 0 \<Longrightarrow> old_total (BFS_round sys) < old_total sys"
  using BFS_round_measure [of sys] by linarith


text \<open>
  The do-while loop of \<^verbatim>\<open>BFS::go\<close>: the body runs, then \<^verbatim>\<open>DGAccumulator_accum.reduce()\<close>
  is converted to \<^verbatim>\<open>bool\<close>, so the loop repeats when the value is not 0. The function
  returns the final state together with the values that \<^verbatim>\<open>reduce()\<close> returned, one
  per round executed, in order.
\<close>

function BFS_loop :: "System \<Rightarrow> System \<times> int list" where
  "BFS_loop sys =
     (let sys' = BFS_round sys;
          r = DGAccumulator_reduce sys'
      in if r \<noteq> 0 then (case BFS_loop sys' of (fin, rs) \<Rightarrow> (fin, r # rs))
         else (sys', [r]))"
  by pat_completeness auto
termination
  by (relation "measure old_total") (auto simp: BFS_round_decreases)

declare BFS_loop.simps [simp del]

text \<open>\<^verbatim>\<open>BFS::go\<close>: the bootstrap, then the loop.\<close>

definition BFS_go :: "System \<Rightarrow> System \<times> int list" where
  "BFS_go sys = BFS_loop (FirstItr_BFS_go sys)"

text \<open>
  \<^verbatim>\<open>main\<close> with one run: \<^verbatim>\<open>InitializeGraph::go\<close>, then \<^verbatim>\<open>BFS::go\<close>. The option
  \<^verbatim>\<open>maxIterations\<close> is only passed to \<^verbatim>\<open>reportStat\<close>; no other code reads it.
\<close>

definition BFS_main :: "Options \<Rightarrow> System \<Rightarrow> System \<times> int list" where
  "BFS_main opts sys = BFS_go (InitializeGraph_go opts sys)"


subsection \<open>Example inputs\<close>

text \<open>
  Two hosts and the directed line v0 -> v1 -> v2 with source v0, run with cap 1. Host 0
  owns v0 (local id 0) and v2 (local id 1) and mirrors v1 (local id 2); host 1 owns v1
  (local id 0) and mirrors v2 (local id 1). Every edge ends in a mirror, so a distance
  moves one edge further only through the synchronisation at the end of a round,
  whatever the order in which a host visits its vertices. The node data are overwritten
  by \<^verbatim>\<open>InitializeGraph::go\<close>.
\<close>

definition zigzag :: System where
  "zigzag =
     \<lparr>numHosts = 2,
      host = (\<lambda>h. if h = 0
                   then \<lparr>numOwned = 2, edgeDst = (\<lambda>v. if v = 0 then [2] else []),
                         getGID = (\<lambda>v. if v = 0 then 0 else if v = 1 then 2 else 1),
                         mirrors = [(2, 1, 0)],
                         nodeData = (\<lambda>v. \<lparr>dist_current = 0, dist_old = 0\<rparr>),
                         DGAccumulator_accum = 0\<rparr>
                   else \<lparr>numOwned = 1, edgeDst = (\<lambda>v. if v = 0 then [1] else []),
                         getGID = (\<lambda>v. if v = 0 then 1 else 2),
                         mirrors = [(1, 0, 1)],
                         nodeData = (\<lambda>v. \<lparr>dist_current = 0, dist_old = 0\<rparr>),
                         DGAccumulator_accum = 0\<rparr>)\<rparr>"

definition cap_opts :: Options where
  "cap_opts = \<lparr>maxIterations = 1, src_node = 0\<rparr>"

text \<open>A host with the edge 0 -> 1 whose vertex 0 has improved since its last visit.\<close>

definition pair_host :: Host where
  "pair_host =
     \<lparr>numOwned = 2,
      edgeDst = (\<lambda>v. if v = 0 then [1] else []),
      getGID = of_nat,
      mirrors = [],
      nodeData = (\<lambda>v. if v = 0 then \<lparr>dist_current = 0, dist_old = 5\<rparr>
                        else \<lparr>dist_current = 7, dist_old = 7\<rparr>),
      DGAccumulator_accum = 0\<rparr>"

text \<open>
  A host whose vertex 0 has a self-loop and an edge to vertex 1, and holds the value
  that \<^verbatim>\<open>reset\<close> writes.
\<close>

definition wrap_host :: Host where
  "wrap_host =
     \<lparr>numOwned = 2,
      edgeDst = (\<lambda>v. if v = 0 then [0, 1] else []),
      getGID = of_nat,
      mirrors = [],
      nodeData = (\<lambda>v. if v = 0 then \<lparr>dist_current = 4294967295, dist_old = 4294967295\<rparr>
                        else \<lparr>dist_current = 5, dist_old = 5\<rparr>),
      DGAccumulator_accum = 0\<rparr>"

text \<open>The same topology with every vertex at the sentinel.\<close>

definition far_host :: Host where
  "far_host =
     \<lparr>numOwned = 2,
      edgeDst = (\<lambda>v. if v = 0 then [0, 1] else []),
      getGID = of_nat,
      mirrors = [],
      nodeData = (\<lambda>v. \<lparr>dist_current = infinity, dist_old = infinity\<rparr>),
      DGAccumulator_accum = 0\<rparr>"

text \<open>
  Two hosts with one boundary vertex: host 0 owns it (local id 0, value 5), host 1 owns
  another vertex (local id 0) with an edge to its mirror of the boundary vertex (local
  id 1, value 3).
\<close>

definition two_hosts :: System where
  "two_hosts =
     \<lparr>numHosts = 2,
      host = (\<lambda>h. if h = 0
                   then \<lparr>numOwned = 1, edgeDst = (\<lambda>v. []), getGID = (\<lambda>v. 0), mirrors = [],
                         nodeData = (\<lambda>v. \<lparr>dist_current = 5, dist_old = 5\<rparr>),
                         DGAccumulator_accum = 0\<rparr>
                   else \<lparr>numOwned = 1, edgeDst = (\<lambda>v. if v = 0 then [1] else []),
                         getGID = (\<lambda>v. if v = 0 then 1 else 0), mirrors = [(1, 0, 0)],
                         nodeData = (\<lambda>v. if v = 0 then \<lparr>dist_current = 2, dist_old = 2\<rparr>
                                          else \<lparr>dist_current = 3, dist_old = 5\<rparr>),
                         DGAccumulator_accum = 0\<rparr>)\<rparr>"

section \<open>Properties of the maximal independent set program\<close>

lemma build_loop_iff: "build_loop d es \<longleftrightarrow> (\<forall>t\<in>set es. flag (d t) \<noteq> MATCHED)"
  by (induction es) auto

lemma modify_loop_eq:
  "modify_loop d es = (\<lambda>v. if v \<in> set es then (d v)\<lparr>flag := OTHER_MATCHED\<rparr> else d v)"
proof (induction es arbitrary: d)
  case Nil
  show ?case by simp
next
  case (Cons dst es)
  show ?case by (simp add: Cons.IH fun_eq_iff)
qed

lemma build_iff:
  "build g s \<longleftrightarrow>
     flag (getData g s) = UNMATCHED \<and> (\<forall>t\<in>set (edges g s). flag (getData g t) \<noteq> MATCHED)"
  by (simp add: build_def build_loop_iff)

lemma modify_flag_src: "flag (getData (modify g s) s) = MATCHED"
  by (simp add: modify_def Let_def)

lemma double_match_loop_iff:
  "double_match_loop d n es \<longleftrightarrow> (\<exists>t\<in>set es. t \<noteq> n \<and> flag (d t) = MATCHED)"
  by (induction es) auto

lemma ok_loop_iff: "ok_loop d ok es \<longleftrightarrow> ok \<or> (\<exists>t\<in>set es. flag (d t) \<noteq> UNMATCHED)"
  by (induction es arbitrary: ok) auto

lemma is_bad_iff:
  "is_bad g n \<longleftrightarrow>
     (flag (getData g n) = MATCHED \<and>
        (\<exists>t\<in>set (edges g n). t \<noteq> n \<and> flag (getData g t) = MATCHED)) \<or>
     (flag (getData g n) = UNMATCHED \<and>
        (\<forall>t\<in>set (edges g n). flag (getData g t) = UNMATCHED))"
  by (auto simp: is_bad_def double_match_loop_iff ok_loop_iff)

lemma find_None_upt: "find P [0..<n] = None \<longleftrightarrow> (\<forall>v<n. \<not> P v)"
  by (auto simp: find_None_iff)


text \<open>
  C3. The serial MIS operator applied to \<open>s\<close> changes nothing when \<open>s\<close> is not UNMATCHED
  or some out-neighbour of \<open>s\<close> is MATCHED. Otherwise every out-neighbour other than \<open>s\<close>
  ends with flag OTHER_MATCHED (none of them is MATCHED in this branch, so the "unless
  already MATCHED" of the specification never applies), \<open>s\<close> ends MATCHED with its other
  fields untouched, and the data of every other vertex and the topology are unchanged.
\<close>

theorem Process_serial_spec:
  "(flag (getData g s) \<noteq> UNMATCHED \<or> (\<exists>t\<in>set (edges g s). flag (getData g t) = MATCHED)
      \<longrightarrow> Process g s = g) \<and>
   (flag (getData g s) = UNMATCHED \<and> (\<forall>t\<in>set (edges g s). flag (getData g t) \<noteq> MATCHED)
      \<longrightarrow> getData (Process g s) s = (getData g s)\<lparr>flag := MATCHED\<rparr> \<and>
          (\<forall>t\<in>set (edges g s). t \<noteq> s \<longrightarrow>
             getData (Process g s) t = (getData g t)\<lparr>flag := OTHER_MATCHED\<rparr> \<and>
             flag (getData (Process g s) t) =
               (if flag (getData g t) = MATCHED then MATCHED else OTHER_MATCHED)) \<and>
          (\<forall>t. t \<noteq> s \<and> t \<notin> set (edges g s) \<longrightarrow> getData (Process g s) t = getData g t) \<and>
          numNodes (Process g s) = numNodes g \<and> edges (Process g s) = edges g)"
proof (intro conjI impI)
  assume "flag (getData g s) \<noteq> UNMATCHED \<or> (\<exists>t\<in>set (edges g s). flag (getData g t) = MATCHED)"
  then have "\<not> build g s" by (auto simp: build_iff)
  then show "Process g s = g" by (simp add: Process_def)
next
  assume a: "flag (getData g s) = UNMATCHED \<and> (\<forall>t\<in>set (edges g s). flag (getData g t) \<noteq> MATCHED)"
  then have b: "Process g s = modify g s" by (simp add: Process_def build_iff)
  show "getData (Process g s) s = (getData g s)\<lparr>flag := MATCHED\<rparr>"
    by (simp add: b modify_def Let_def modify_loop_eq)
  show "\<forall>t\<in>set (edges g s). t \<noteq> s \<longrightarrow>
          getData (Process g s) t = (getData g t)\<lparr>flag := OTHER_MATCHED\<rparr> \<and>
          flag (getData (Process g s) t) =
            (if flag (getData g t) = MATCHED then MATCHED else OTHER_MATCHED)"
    using a by (simp add: b modify_def Let_def modify_loop_eq)
  show "\<forall>t. t \<noteq> s \<and> t \<notin> set (edges g s) \<longrightarrow> getData (Process g s) t = getData g t"
    by (simp add: b modify_def Let_def modify_loop_eq)
  show "numNodes (Process g s) = numNodes g"
    by (simp add: b modify_def Let_def)
  show "edges (Process g s) = edges g"
    by (simp add: b modify_def Let_def)
qed

theorem Process_serial_spec_witness:
  "flag (getData path5 0) = UNMATCHED \<and>
   edges path5 0 = [1] \<and> flag (getData path5 1) \<noteq> MATCHED \<and>
   getData (Process path5 0) 0 = (getData path5 0)\<lparr>flag := MATCHED\<rparr> \<and>
   getData (Process path5 0) 1 = (getData path5 1)\<lparr>flag := OTHER_MATCHED\<rparr> \<and>
   getData (Process path5 0) 2 = getData path5 2 \<and>
   flag (getData (modify path5 0) 1) \<noteq> UNMATCHED \<and>
   Process (modify path5 0) 1 = modify path5 0"
proof -
  have h1: "flag (getData path5 0) = UNMATCHED \<and>
            (\<forall>t\<in>set (edges path5 0). flag (getData path5 t) \<noteq> MATCHED)"
    by (simp add: path5_def initial_graph_def path5_edges_def)
  have e: "edges path5 0 = [1]"
    by (simp add: path5_def initial_graph_def path5_edges_def)
  have h2: "flag (getData (modify path5 0) 1) \<noteq> UNMATCHED"
    by (simp add: modify_def Let_def e)
  from Process_serial_spec [of path5 0] h1 e
  have r1: "getData (Process path5 0) 0 = (getData path5 0)\<lparr>flag := MATCHED\<rparr> \<and>
            getData (Process path5 0) 1 = (getData path5 1)\<lparr>flag := OTHER_MATCHED\<rparr> \<and>
            getData (Process path5 0) 2 = getData path5 2"
    by simp
  from Process_serial_spec [of "modify path5 0" 1] h2
  have r2: "Process (modify path5 0) 1 = modify path5 0"
    by blast
  from h1 e have h3: "flag (getData path5 1) \<noteq> MATCHED" by simp
  from h1 h2 h3 e r1 r2 show ?thesis by blast
qed


text \<open>
  C5 (as the code has it). \<open>verify\<close> returns true exactly when, for every vertex \<open>v\<close>:
  if \<open>v\<close> is MATCHED then no neighbour of \<open>v\<close> \<^emph>\<open>other than \<open>v\<close> itself\<close> is MATCHED (the
  test \<^verbatim>\<open>dst != n\<close> of \<^verbatim>\<open>is_bad\<close> skips self-loops), and if \<open>v\<close> is UNMATCHED then at
  least one neighbour of \<open>v\<close> is not UNMATCHED. A vertex with flag OTHER_MATCHED is
  never reported bad.
\<close>

theorem verify_iff:
  "(verify g \<longleftrightarrow>
      (\<forall>v<numNodes g.
         (flag (getData g v) = MATCHED \<longrightarrow>
            (\<forall>t\<in>set (edges g v). t \<noteq> v \<longrightarrow> flag (getData g t) \<noteq> MATCHED)) \<and>
         (flag (getData g v) = UNMATCHED \<longrightarrow>
            (\<exists>t\<in>set (edges g v). flag (getData g t) \<noteq> UNMATCHED)))) \<and>
   (flag (getData g n) = OTHER_MATCHED \<longrightarrow> \<not> is_bad g n)"
proof
  show "verify g \<longleftrightarrow>
      (\<forall>v<numNodes g.
         (flag (getData g v) = MATCHED \<longrightarrow>
            (\<forall>t\<in>set (edges g v). t \<noteq> v \<longrightarrow> flag (getData g t) \<noteq> MATCHED)) \<and>
         (flag (getData g v) = UNMATCHED \<longrightarrow>
            (\<exists>t\<in>set (edges g v). flag (getData g t) \<noteq> UNMATCHED)))"
    unfolding verify_def find_None_upt is_bad_iff by auto
  show "flag (getData g n) = OTHER_MATCHED \<longrightarrow> \<not> is_bad g n"
    by (simp add: is_bad_def)
qed

theorem verify_iff_witness:
  "verify (SerialAlgo path5) \<and> flag (getData (SerialAlgo path5) 1) = OTHER_MATCHED \<and>
   \<not> is_bad (SerialAlgo path5) 1 \<and> \<not> verify path5"
proof -
  have v: "verify (SerialAlgo path5)" by code_simp
  have f: "flag (getData (SerialAlgo path5) 1) = OTHER_MATCHED" by code_simp
  have u: "flag (getData path5 0) = UNMATCHED \<and> 0 < numNodes path5 \<and>
           (\<forall>t\<in>set (edges path5 0). flag (getData path5 t) = UNMATCHED)"
    by (simp add: path5_def initial_graph_def path5_edges_def)
  from verify_iff [of "SerialAlgo path5" 1] f have "\<not> is_bad (SerialAlgo path5) 1" by blast
  moreover from verify_iff [of path5 0] u have "\<not> verify path5" by blast
  ultimately show ?thesis using v f by blast
qed

text \<open>
  The claim C5 as the specification words it (no neighbour at all of a MATCHED vertex is
  MATCHED) fails on a graph with a self-loop: after the serial algorithm the single
  vertex of \<open>loop1\<close> is MATCHED and is its own neighbour, and \<open>verify\<close> returns true.
\<close>

theorem verify_self_loop_counterexample:
  "verify (SerialAlgo loop1) \<and> 0 < numNodes (SerialAlgo loop1) \<and>
   flag (getData (SerialAlgo loop1) 0) = MATCHED \<and>
   0 \<in> set (edges (SerialAlgo loop1) 0) \<and>
   \<not> (\<forall>v<numNodes (SerialAlgo loop1).
        (flag (getData (SerialAlgo loop1) v) = MATCHED \<longrightarrow>
           (\<forall>t\<in>set (edges (SerialAlgo loop1) v). flag (getData (SerialAlgo loop1) t) \<noteq> MATCHED)) \<and>
        (flag (getData (SerialAlgo loop1) v) = UNMATCHED \<longrightarrow>
           (\<exists>t\<in>set (edges (SerialAlgo loop1) v). flag (getData (SerialAlgo loop1) t) \<noteq> UNMATCHED)))"
proof -
  have a: "verify (SerialAlgo loop1)" by code_simp
  have b: "0 < numNodes (SerialAlgo loop1)" by code_simp
  have c: "flag (getData (SerialAlgo loop1) 0) = MATCHED" by code_simp
  have d: "0 \<in> set (edges (SerialAlgo loop1) 0)" by code_simp
  from a b c d show ?thesis by blast
qed


text \<open>
  C8. On the path 0 - 1 - 2 - 3 - 4 with every vertex UNMATCHED, the serial algorithm
  (the operator applied to the vertices in ascending order) leaves the flags
  MATCHED, OTHER_MATCHED, MATCHED, OTHER_MATCHED, MATCHED, and three vertices are MATCHED.
\<close>

theorem SerialAlgo_path5:
  "map (\<lambda>v. flag (getData (SerialAlgo path5) v)) [0, 1, 2, 3, 4] =
     [MATCHED, OTHER_MATCHED, MATCHED, OTHER_MATCHED, MATCHED] \<and>
   cardinality (SerialAlgo path5) = 3"
  by code_simp


text \<open>
  C9. The serial MIS operator is idempotent: applying it to \<open>s\<close> twice in succession
  gives the same graph state as applying it once.
\<close>

theorem Process_idempotent: "Process (Process g s) s = Process g s"
proof (cases "build g s")
  case True
  have "\<not> build (modify g s) s"
    by (simp add: build_iff modify_flag_src)
  with True show ?thesis by (simp add: Process_def)
next
  case False
  then show ?thesis by (simp add: Process_def)
qed



section \<open>Properties of the distributed BFS program\<close>

subsection \<open>The operators\<close>

lemma uint_max_eq: "(4294967295 :: 32 word) = - 1"
  by simp

lemma min_inc_self: "(c :: 32 word) \<noteq> 4294967295 \<Longrightarrow> min c (1 + c) = c"
proof -
  assume "c \<noteq> 4294967295"
  then have "c \<noteq> - 1" unfolding uint_max_eq .
  then have "\<not> c + 1 \<le> c" by (simp add: inc_less_eq_self_iff_eq)
  then show ?thesis by (simp add: min_def add.commute)
qed

lemma unat_inc: "(c :: 32 word) \<noteq> 4294967295 \<Longrightarrow> unat (1 + c) = 1 + unat c \<and> 1 + c \<noteq> 0"
proof -
  assume "c \<noteq> 4294967295"
  then have "c \<noteq> - 1" unfolding uint_max_eq .
  then have n: "1 + c \<noteq> 0" using max_word_wrap [of c] by (auto simp: add.commute)
  then show ?thesis by (simp add: unatSuc)
qed

lemma le_infinity_not_max: "(c :: 32 word) \<le> infinity \<Longrightarrow> c \<noteq> 4294967295"
  by (auto simp: infinity_def)

lemma relax_loop_spec:
  assumes "dist_current (d src) = c" and "c \<noteq> 4294967295 \<or> src \<notin> set es"
  shows "relax_loop d src es =
           (\<lambda>v. if v \<in> set es then (d v)\<lparr>dist_current := min (dist_current (d v)) (1 + c)\<rparr>
                 else d v)"
  using assms
proof (induction es arbitrary: d)
  case Nil
  show ?case by simp
next
  case (Cons dst es)
  let ?d' = "d(dst := (d dst)\<lparr>dist_current := min (dist_current (d dst)) (1 + c)\<rparr>)"
  have keep: "dist_current (?d' src) = c"
    using Cons.prems by (auto simp: min_inc_self)
  have side: "c \<noteq> 4294967295 \<or> src \<notin> set es"
    using Cons.prems by auto
  have "relax_loop d src (dst # es) = relax_loop ?d' src es"
    using Cons.prems(1) by (simp add: Let_def atomicMin_def)
  also have "\<dots> = (\<lambda>v. if v \<in> set es
                then (?d' v)\<lparr>dist_current := min (dist_current (?d' v)) (1 + c)\<rparr> else ?d' v)"
    by (rule Cons.IH [of ?d', OF keep side])
  also have "\<dots> = (\<lambda>v. if v \<in> set (dst # es)
                then (d v)\<lparr>dist_current := min (dist_current (d v)) (1 + c)\<rparr> else d v)"
    by (auto simp: fun_eq_iff)
  finally show ?case .
qed

lemma relax_loop_src:
  assumes "dist_current (d src) = c" and "c \<noteq> 4294967295 \<or> src \<notin> set es"
  shows "dist_current (relax_loop d src es src) = c"
  using assms by (auto simp: relax_loop_spec [of d src c es, OF assms] min_inc_self)

lemma relax_reads_spec:
  assumes "dist_current (d src) = c" and "c \<noteq> 4294967295 \<or> src \<notin> set es"
  shows "set (relax_reads d src es) \<subseteq> {c}"
  using assms
proof (induction es arbitrary: d)
  case Nil
  show ?case by simp
next
  case (Cons dst es)
  have "dist_current (relax_loop d src [dst] src) = c"
    by (rule relax_loop_src [of d src c "[dst]"]) (use Cons.prems in auto)
  moreover have "c \<noteq> 4294967295 \<or> src \<notin> set es" using Cons.prems by auto
  ultimately have "set (relax_reads (relax_loop d src [dst]) src es) \<subseteq> {c}"
    by (rule Cons.IH [of "relax_loop d src [dst]"])
  then show ?case using Cons.prems(1) by simp
qed

lemma relax_loop_other: "v \<notin> set es \<Longrightarrow> relax_loop d src es v = d v"
  by (induction es arbitrary: d) (auto simp: Let_def)

lemma InitializeGraph_op_le:
  "dist_current (nodeData (InitializeGraph_op opts g s) s) \<le> infinity"
  by (simp add: InitializeGraph_op_def Let_def)


text \<open>
  C4. The steady operator applied to a local vertex \<open>s\<close>. If \<open>s.dist_old > s.dist_current\<close>
  it sets \<open>s.dist_old\<close> to \<open>s.dist_current\<close>, adds 1 to the accumulator, and every
  destination \<open>t\<close> of an outgoing edge of \<open>s\<close> ends with
  \<open>min(t.dist_current, s.dist_current + 1)\<close>, all values being those before the call;
  the guard excludes the largest value of \<open>s.dist_current\<close>, so the sum is the same
  in 32-bit and in unbounded arithmetic. No other \<open>dist_current\<close> and no other
  \<open>dist_old\<close> changes. If \<open>s.dist_old \<le> s.dist_current\<close> the whole state, vertex data
  and accumulator, is unchanged.
\<close>

theorem BFS_op_spec:
  "(dist_old (nodeData g s) > dist_current (nodeData g s) \<longrightarrow>
      dist_old (nodeData (BFS_op g s) s) = dist_current (nodeData g s) \<and>
      DGAccumulator_accum (BFS_op g s) = DGAccumulator_accum g + 1 \<and>
      (\<forall>t\<in>set (edgeDst g s).
         dist_current (nodeData (BFS_op g s) t) =
           min (dist_current (nodeData g t)) (dist_current (nodeData g s) + 1) \<and>
         unat (dist_current (nodeData (BFS_op g s) t)) =
           min (unat (dist_current (nodeData g t))) (unat (dist_current (nodeData g s)) + 1)) \<and>
      (\<forall>t. t \<notin> set (edgeDst g s) \<longrightarrow>
         dist_current (nodeData (BFS_op g s) t) = dist_current (nodeData g t)) \<and>
      (\<forall>t. t \<noteq> s \<longrightarrow> dist_old (nodeData (BFS_op g s) t) = dist_old (nodeData g t)) \<and>
      numOwned (BFS_op g s) = numOwned g \<and> edgeDst (BFS_op g s) = edgeDst g \<and>
      getGID (BFS_op g s) = getGID g \<and> mirrors (BFS_op g s) = mirrors g) \<and>
   (dist_old (nodeData g s) \<le> dist_current (nodeData g s) \<longrightarrow> BFS_op g s = g)"
proof (intro conjI impI)
  assume "dist_old (nodeData g s) \<le> dist_current (nodeData g s)"
  then show "BFS_op g s = g" by (simp add: BFS_op_def Let_def)
next
  assume gt: "dist_current (nodeData g s) < dist_old (nodeData g s)"
  let ?c = "dist_current (nodeData g s)"
  let ?d1 = "(nodeData g)(s := (nodeData g s)\<lparr>dist_old := ?c\<rparr>)"
  have nm: "?c \<noteq> 4294967295"
  proof
    assume "?c = 4294967295"
    then have "?c = - 1" unfolding uint_max_eq .
    with gt show False by simp
  qed
  have c1: "dist_current (?d1 s) = ?c" by simp
  have nd: "nodeData (BFS_op g s) =
              (\<lambda>v. if v \<in> set (edgeDst g s)
                    then (?d1 v)\<lparr>dist_current := min (dist_current (?d1 v)) (1 + ?c)\<rparr>
                    else ?d1 v)"
    using gt relax_loop_spec [of ?d1 s ?c "edgeDst g s", OF c1 disjI1 [OF nm]]
    by (simp add: BFS_op_def Let_def)
  show "dist_old (nodeData (BFS_op g s) s) = ?c"
    by (simp add: nd)
  show "DGAccumulator_accum (BFS_op g s) = DGAccumulator_accum g + 1"
    using gt by (simp add: BFS_op_def Let_def)
  show "\<forall>t\<in>set (edgeDst g s).
         dist_current (nodeData (BFS_op g s) t) =
           min (dist_current (nodeData g t)) (?c + 1) \<and>
         unat (dist_current (nodeData (BFS_op g s) t)) =
           min (unat (dist_current (nodeData g t))) (unat ?c + 1)"
  proof
    fix t assume t: "t \<in> set (edgeDst g s)"
    have a: "dist_current (nodeData (BFS_op g s) t) = min (dist_current (nodeData g t)) (?c + 1)"
      using t by (simp add: nd add.commute)
    have "unat (min (dist_current (nodeData g t)) (?c + 1)) =
          min (unat (dist_current (nodeData g t))) (unat (?c + 1))"
      by (simp add: min_def word_le_nat_alt)
    also have "unat (?c + 1) = unat ?c + 1"
      using unat_inc [OF nm] by (simp add: add.commute)
    finally show "dist_current (nodeData (BFS_op g s) t) =
           min (dist_current (nodeData g t)) (?c + 1) \<and>
         unat (dist_current (nodeData (BFS_op g s) t)) =
           min (unat (dist_current (nodeData g t))) (unat ?c + 1)"
      using a by simp
  qed
  show "\<forall>t. t \<notin> set (edgeDst g s) \<longrightarrow>
         dist_current (nodeData (BFS_op g s) t) = dist_current (nodeData g t)"
    by (simp add: nd)
  show "\<forall>t. t \<noteq> s \<longrightarrow> dist_old (nodeData (BFS_op g s) t) = dist_old (nodeData g t)"
    by (simp add: nd)
  show "numOwned (BFS_op g s) = numOwned g" "edgeDst (BFS_op g s) = edgeDst g"
    "getGID (BFS_op g s) = getGID g" "mirrors (BFS_op g s) = mirrors g"
    by (simp_all add: BFS_op_def Let_def)
qed

theorem BFS_op_spec_witness:
  "dist_current (nodeData pair_host 0) < dist_old (nodeData pair_host 0) \<and>
   edgeDst pair_host 0 = [1] \<and>
   dist_old (nodeData (BFS_op pair_host 0) 0) = 0 \<and>
   DGAccumulator_accum (BFS_op pair_host 0) = 1 \<and>
   dist_current (nodeData (BFS_op pair_host 0) 1) = 1 \<and>
   dist_old (nodeData pair_host 1) \<le> dist_current (nodeData pair_host 1) \<and>
   BFS_op pair_host 1 = pair_host"
proof -
  have h: "dist_current (nodeData pair_host 0) < dist_old (nodeData pair_host 0)"
    and e: "edgeDst pair_host 0 = [1]"
    and v: "dist_current (nodeData pair_host 0) = 0" "dist_current (nodeData pair_host 1) = 7"
      "DGAccumulator_accum pair_host = 0"
    and h2: "dist_old (nodeData pair_host 1) \<le> dist_current (nodeData pair_host 1)"
    by (simp_all add: pair_host_def)
  from BFS_op_spec [of pair_host 0] h e v
  have r1: "dist_old (nodeData (BFS_op pair_host 0) 0) = 0 \<and>
            DGAccumulator_accum (BFS_op pair_host 0) = 1 \<and>
            dist_current (nodeData (BFS_op pair_host 0) 1) = 1"
    by simp
  from BFS_op_spec [of pair_host 1] h2
  have r2: "BFS_op pair_host 1 = pair_host" by blast
  from h e h2 r1 r2 show ?thesis by blast
qed


text \<open>
  C7 (as the code has it). The bootstrap operator applied to a local vertex \<open>s\<close> always
  sets \<open>s.dist_old\<close> to the \<open>s.dist_current\<close> it finds, changes no other \<open>dist_old\<close>,
  no \<open>dist_current\<close> of a vertex that is not a destination of an edge of \<open>s\<close>, and
  neither the accumulator nor the topology. Provided \<open>s.dist_current\<close> is not the
  largest \<^verbatim>\<open>unsigned int\<close> or \<open>s\<close> has no edge to itself, every destination \<open>t\<close> of an
  edge of \<open>s\<close> ends with \<open>min(t.dist_current, s.dist_current + 1)\<close>, the sum taken in
  \<^verbatim>\<open>unsigned int\<close> arithmetic and all values being those before the call; where
  \<open>s.dist_current\<close> is not the largest \<^verbatim>\<open>unsigned int\<close> the sum does not wrap.
\<close>

theorem FirstItr_BFS_op_spec:
  "dist_old (nodeData (FirstItr_BFS_op g s) s) = dist_current (nodeData g s) \<and>
   (\<forall>t. t \<noteq> s \<longrightarrow> dist_old (nodeData (FirstItr_BFS_op g s) t) = dist_old (nodeData g t)) \<and>
   (\<forall>t. t \<notin> set (edgeDst g s) \<longrightarrow>
      dist_current (nodeData (FirstItr_BFS_op g s) t) = dist_current (nodeData g t)) \<and>
   DGAccumulator_accum (FirstItr_BFS_op g s) = DGAccumulator_accum g \<and>
   numOwned (FirstItr_BFS_op g s) = numOwned g \<and> edgeDst (FirstItr_BFS_op g s) = edgeDst g \<and>
   getGID (FirstItr_BFS_op g s) = getGID g \<and> mirrors (FirstItr_BFS_op g s) = mirrors g \<and>
   (dist_current (nodeData g s) \<noteq> 4294967295 \<or> s \<notin> set (edgeDst g s) \<longrightarrow>
      (\<forall>t\<in>set (edgeDst g s).
         dist_current (nodeData (FirstItr_BFS_op g s) t) =
           min (dist_current (nodeData g t)) (dist_current (nodeData g s) + 1))) \<and>
   (dist_current (nodeData g s) \<noteq> 4294967295 \<longrightarrow>
      (\<forall>t\<in>set (edgeDst g s).
         unat (dist_current (nodeData (FirstItr_BFS_op g s) t)) =
           min (unat (dist_current (nodeData g t))) (unat (dist_current (nodeData g s)) + 1)))"
proof -
  let ?c = "dist_current (nodeData g s)"
  let ?d1 = "(nodeData g)(s := (nodeData g s)\<lparr>dist_old := ?c\<rparr>)"
  have nd: "nodeData (FirstItr_BFS_op g s) = relax_loop ?d1 s (edgeDst g s)"
    by (simp add: FirstItr_BFS_op_def Let_def)
  have a: "dist_old (nodeData (FirstItr_BFS_op g s) s) = ?c"
    by (simp add: nd relax_loop_dist_old)
  have b: "\<forall>t. t \<noteq> s \<longrightarrow> dist_old (nodeData (FirstItr_BFS_op g s) t) = dist_old (nodeData g t)"
    by (simp add: nd relax_loop_dist_old)
  have c: "\<forall>t. t \<notin> set (edgeDst g s) \<longrightarrow>
      dist_current (nodeData (FirstItr_BFS_op g s) t) = dist_current (nodeData g t)"
    by (simp add: nd relax_loop_other)
  have d: "DGAccumulator_accum (FirstItr_BFS_op g s) = DGAccumulator_accum g"
    "numOwned (FirstItr_BFS_op g s) = numOwned g" "edgeDst (FirstItr_BFS_op g s) = edgeDst g"
    "getGID (FirstItr_BFS_op g s) = getGID g" "mirrors (FirstItr_BFS_op g s) = mirrors g"
    by (simp_all add: FirstItr_BFS_op_def Let_def)
  have e: "\<forall>t\<in>set (edgeDst g s).
         dist_current (nodeData (FirstItr_BFS_op g s) t) =
           min (dist_current (nodeData g t)) (?c + 1)"
    if h: "?c \<noteq> 4294967295 \<or> s \<notin> set (edgeDst g s)"
  proof -
    have c1: "dist_current (?d1 s) = ?c" by simp
    show ?thesis
      by (simp add: nd relax_loop_spec [of ?d1 s ?c "edgeDst g s", OF c1 h] add.commute)
  qed
  have f: "\<forall>t\<in>set (edgeDst g s).
         unat (dist_current (nodeData (FirstItr_BFS_op g s) t)) =
           min (unat (dist_current (nodeData g t))) (unat ?c + 1)"
    if nm: "?c \<noteq> 4294967295"
  proof
    fix t assume t: "t \<in> set (edgeDst g s)"
    from e [OF disjI1 [OF nm]] t
    have "dist_current (nodeData (FirstItr_BFS_op g s) t) =
            min (dist_current (nodeData g t)) (?c + 1)"
      by blast
    moreover have "unat (min (dist_current (nodeData g t)) (?c + 1)) =
          min (unat (dist_current (nodeData g t))) (unat (?c + 1))"
      by (simp add: min_def word_le_nat_alt)
    moreover have "unat (?c + 1) = unat ?c + 1"
      using unat_inc [OF nm] by (simp add: add.commute)
    ultimately show "unat (dist_current (nodeData (FirstItr_BFS_op g s) t)) =
           min (unat (dist_current (nodeData g t))) (unat ?c + 1)"
      by simp
  qed
  from a b c d e f show ?thesis by blast
qed

theorem FirstItr_BFS_op_spec_witness:
  "dist_current (nodeData pair_host 0) \<noteq> 4294967295 \<and>
   edgeDst pair_host 0 = [1] \<and>
   dist_old (nodeData (FirstItr_BFS_op pair_host 0) 0) = 0 \<and>
   dist_current (nodeData (FirstItr_BFS_op pair_host 0) 1) = 1 \<and>
   dist_old (nodeData (FirstItr_BFS_op pair_host 0) 1) = 7"
proof -
  have h: "dist_current (nodeData pair_host 0) \<noteq> 4294967295"
    and e: "edgeDst pair_host 0 = [1]"
    and v: "dist_current (nodeData pair_host 0) = 0" "dist_current (nodeData pair_host 1) = 7"
      "dist_old (nodeData pair_host 1) = 7"
    by (simp_all add: pair_host_def)
  from FirstItr_BFS_op_spec [of pair_host 0] h e v show ?thesis by simp
qed

text \<open>
  The claim C7 for every graph state fails where \<open>s\<close> holds the largest \<^verbatim>\<open>unsigned int\<close>
  (the value \<^verbatim>\<open>reset\<close> writes) and has an edge to itself before an edge to \<open>t\<close>: the
  self-loop wraps \<open>s.dist_current\<close> to 0, the loop reads it again, and \<open>t\<close> ends with
  1 where \<open>min(t.dist_current, s.dist_current + 1)\<close> of the initial values is 0 in
  \<^verbatim>\<open>unsigned int\<close> arithmetic and 5 in unbounded arithmetic.
\<close>

theorem FirstItr_BFS_op_wrap_counterexample:
  "1 \<in> set (edgeDst wrap_host 0) \<and>
   dist_current (nodeData (FirstItr_BFS_op wrap_host 0) 1) = 1 \<and>
   min (dist_current (nodeData wrap_host 1)) (dist_current (nodeData wrap_host 0) + 1) = 0 \<and>
   dist_current (nodeData (FirstItr_BFS_op wrap_host 0) 1) \<noteq>
     min (dist_current (nodeData wrap_host 1)) (dist_current (nodeData wrap_host 0) + 1) \<and>
   unat (dist_current (nodeData (FirstItr_BFS_op wrap_host 0) 1)) \<noteq>
     min (unat (dist_current (nodeData wrap_host 1))) (unat (dist_current (nodeData wrap_host 0)) + 1)"
  by (simp add: wrap_host_def FirstItr_BFS_op_def Let_def atomicMin_def)


text \<open>
  C10. If the \<open>dist_current\<close> of every local vertex (the set \<open>V\<close>, which contains \<open>s\<close>) is
  at most the sentinel when the bootstrap or the steady operator is applied to \<open>s\<close>,
  then every value \<open>c\<close> of \<^verbatim>\<open>snode.dist_current\<close> that the edge loop reads is at most
  the sentinel, \<^verbatim>\<open>1 + c\<close> does not overflow (as a number it is \<open>1 + c\<close>) and is not 0.
  The bound is kept by both operators, and \<^verbatim>\<open>InitializeGraph\<close> sets a value within it.
\<close>

theorem new_dist_no_overflow:
  assumes "\<forall>v\<in>V. dist_current (nodeData g v) \<le> infinity" and "s \<in> V"
  shows "(\<forall>c\<in>set (FirstItr_BFS_reads g s) \<union> set (BFS_reads g s).
            c \<le> infinity \<and> unat (1 + c) = 1 + unat c \<and> 1 + c \<noteq> 0) \<and>
         (\<forall>v\<in>V. dist_current (nodeData (FirstItr_BFS_op g s) v) \<le> infinity) \<and>
         (\<forall>v\<in>V. dist_current (nodeData (BFS_op g s) v) \<le> infinity) \<and>
         dist_current (nodeData (InitializeGraph_op opts g s) s) \<le> infinity"
proof -
  let ?c = "dist_current (nodeData g s)"
  let ?d1 = "(nodeData g)(s := (nodeData g s)\<lparr>dist_old := ?c\<rparr>)"
  have cle: "?c \<le> infinity" using assms by blast
  then have nm: "?c \<noteq> 4294967295" by (rule le_infinity_not_max)
  have c1: "dist_current (?d1 s) = ?c" by simp
  have side: "?c \<noteq> 4294967295 \<or> s \<notin> set (edgeDst g s)" using nm by simp
  have reads: "set (relax_reads ?d1 s (edgeDst g s)) \<subseteq> {?c}"
    by (rule relax_reads_spec [of ?d1 s ?c "edgeDst g s", OF c1 side])
  have r1: "set (FirstItr_BFS_reads g s) \<subseteq> {?c}"
    using reads by (simp add: FirstItr_BFS_reads_def Let_def)
  have r2: "set (BFS_reads g s) \<subseteq> {?c}"
    using reads by (auto simp: BFS_reads_def Let_def)
  have a: "\<forall>c\<in>set (FirstItr_BFS_reads g s) \<union> set (BFS_reads g s).
            c \<le> infinity \<and> unat (1 + c) = 1 + unat c \<and> 1 + c \<noteq> 0"
    using r1 r2 cle unat_inc [OF nm] by auto
  have rl: "relax_loop ?d1 s (edgeDst g s) =
              (\<lambda>v. if v \<in> set (edgeDst g s)
                    then (?d1 v)\<lparr>dist_current := min (dist_current (?d1 v)) (1 + ?c)\<rparr>
                    else ?d1 v)"
    by (rule relax_loop_spec [of ?d1 s ?c "edgeDst g s", OF c1 side])
  have le: "dist_current (relax_loop ?d1 s (edgeDst g s) v) \<le> dist_current (nodeData g v)" for v
    by (simp add: rl)
  have b: "\<forall>v\<in>V. dist_current (nodeData (FirstItr_BFS_op g s) v) \<le> infinity"
  proof
    fix v assume "v \<in> V"
    then have "dist_current (nodeData g v) \<le> infinity" using assms by blast
    with le [of v] have "dist_current (relax_loop ?d1 s (edgeDst g s) v) \<le> infinity"
      by (rule order_trans)
    then show "dist_current (nodeData (FirstItr_BFS_op g s) v) \<le> infinity"
      by (simp add: FirstItr_BFS_op_def Let_def)
  qed
  have c: "\<forall>v\<in>V. dist_current (nodeData (BFS_op g s) v) \<le> infinity"
  proof
    fix v assume "v \<in> V"
    then have v: "dist_current (nodeData g v) \<le> infinity" using assms by blast
    with le [of v] have "dist_current (relax_loop ?d1 s (edgeDst g s) v) \<le> infinity"
      by (rule order_trans)
    with v show "dist_current (nodeData (BFS_op g s) v) \<le> infinity"
      by (simp add: BFS_op_def Let_def)
  qed
  from a b c InitializeGraph_op_le show ?thesis by blast
qed

theorem new_dist_no_overflow_witness:
  "dist_current (nodeData far_host 0) \<le> infinity \<and>
   dist_current (nodeData far_host 1) \<le> infinity \<and>
   FirstItr_BFS_reads far_host 0 = [infinity, infinity] \<and>
   unat (1 + infinity) = 1 + unat infinity \<and> 1 + infinity \<noteq> 0 \<and>
   dist_current (nodeData (FirstItr_BFS_op far_host 0) 1) \<le> infinity"
proof -
  have h: "\<forall>v\<in>{0, 1}. dist_current (nodeData far_host v) \<le> infinity"
    by (simp add: far_host_def)
  have r: "FirstItr_BFS_reads far_host 0 = [infinity, infinity]"
    by (simp add: far_host_def FirstItr_BFS_reads_def Let_def atomicMin_def infinity_def)
  from new_dist_no_overflow [of "{0, 1}" far_host 0, OF h] r h
  show ?thesis by simp
qed


subsection \<open>Push synchronisation\<close>

lemma wf_partitionD:
  "wf_partition sys \<Longrightarrow> h < numHosts sys \<Longrightarrow> (r, mh, m) \<in> set (mirrors (host sys h)) \<Longrightarrow>
     numOwned (host sys h) \<le> r \<and> mh < numHosts sys \<and> m < numOwned (host sys mh)"
  by (fastforce simp: wf_partition_def list_all_iff)

lemma push_mirror_at:
  assumes "(mh, m) \<noteq> (h0, r0)"
  shows "dist_current (nodeData (host (push_mirror h (r, mh, m) s) h0) r0) =
           (if (h, r) = (h0, r0) then 4294967295 else dist_current (nodeData (host s h0) r0))"
  using assms
  by (auto simp: push_mirror_def set_node_def Let_def Syncer_0_reset_def Syncer_0_reduce_def
      Syncer_0_extract_def)

lemma fold_push_mirror_at:
  assumes "\<forall>e\<in>set es. (fst (snd e), snd (snd e)) \<noteq> (h0, r0)"
  shows "dist_current (nodeData (host (fold (push_mirror h) es s) h0) r0) =
           (if h = h0 \<and> r0 \<in> fst ` set es then 4294967295
            else dist_current (nodeData (host s h0) r0))"
  using assms
proof (induction es arbitrary: s)
  case Nil
  show ?case by simp
next
  case (Cons e es)
  obtain r mh m where e: "e = (r, mh, m)" by (cases e) auto
  have ne: "(mh, m) \<noteq> (h0, r0)" using Cons.prems by (simp add: e)
  have rest: "\<forall>e\<in>set es. (fst (snd e), snd (snd e)) \<noteq> (h0, r0)" using Cons.prems by simp
  show ?case
    by (simp add: Cons.IH [OF rest] e push_mirror_at [OF ne]) auto
qed

lemma sync_push_host_frame: "frame_eq s (sync_push_host h s)"
  unfolding sync_push_host_def by (intro fold_frame push_mirror_frame)

lemma fold_sync_push_host_at:
  assumes "frame_eq sys s"
    and "\<forall>h\<in>set hs. \<forall>e\<in>set (mirrors (host sys h)). (fst (snd e), snd (snd e)) \<noteq> (h0, r0)"
  shows "dist_current (nodeData (host (fold sync_push_host hs s) h0) r0) =
           (if h0 \<in> set hs \<and> r0 \<in> fst ` set (mirrors (host sys h0)) then 4294967295
            else dist_current (nodeData (host s h0) r0))"
  using assms
proof (induction hs arbitrary: s)
  case Nil
  show ?case by simp
next
  case (Cons h hs)
  have m: "mirrors (host s h) = mirrors (host sys h)"
    using Cons.prems(1) by (simp add: frame_eq_def)
  have f: "frame_eq sys (sync_push_host h s)"
    by (rule frame_eq_trans [OF Cons.prems(1) sync_push_host_frame])
  have rest: "\<forall>h\<in>set hs. \<forall>e\<in>set (mirrors (host sys h)). (fst (snd e), snd (snd e)) \<noteq> (h0, r0)"
    using Cons.prems(2) by simp
  have here: "\<forall>e\<in>set (mirrors (host sys h)). (fst (snd e), snd (snd e)) \<noteq> (h0, r0)"
    using Cons.prems(2) by simp
  have step: "dist_current (nodeData (host (sync_push_host h s) h0) r0) =
           (if h = h0 \<and> r0 \<in> fst ` set (mirrors (host sys h)) then 4294967295
            else dist_current (nodeData (host s h0) r0))"
    unfolding sync_push_host_def m by (rule fold_push_mirror_at [OF here])
  have "fold sync_push_host (h # hs) s = fold sync_push_host hs (sync_push_host h s)"
    by simp
  with Cons.IH [OF f rest] step show ?case
    by (cases "h = h0") auto
qed

lemma two_hosts_wf: "wf_partition two_hosts"
  by (simp add: wf_partition_def two_hosts_def upt_rec)


text \<open>
  C2 (as the code has it). After \<^verbatim>\<open>sync_push\<close> of \<^verbatim>\<open>dist_current\<close> on a well-formed
  partition, the \<^verbatim>\<open>dist_current\<close> of every mirror is 4294967295, that is
  \<^verbatim>\<open>std::numeric_limits<unsigned int>::max()\<close>, the value \<^verbatim>\<open>Syncer_0::reset\<close> stores and
  the identity of \<open>min\<close>; it is not the sentinel \<open>infinity\<close>, which is a quarter of it.
\<close>

theorem sync_push_resets_mirrors:
  assumes "wf_partition sys" and "h < numHosts sys" and "(r, mh, m) \<in> set (mirrors (host sys h))"
  shows "dist_current (nodeData (host (sync_push sys) h) r) = 4294967295 \<and>
         dist_current (nodeData (host (sync_push sys) h) r) \<noteq> infinity"
proof -
  have ne: "\<forall>h'\<in>set [0..<numHosts sys]. \<forall>e\<in>set (mirrors (host sys h')).
              (fst (snd e), snd (snd e)) \<noteq> (h, r)"
  proof (intro ballI)
    fix h' e assume h': "h' \<in> set [0..<numHosts sys]" and e: "e \<in> set (mirrors (host sys h'))"
    obtain r' mh' m' where e': "e = (r', mh', m')" by (cases e) auto
    from wf_partitionD [OF assms(1), of h' r' mh' m'] h' e e'
    have a: "m' < numOwned (host sys mh')" by simp
    from wf_partitionD [OF assms] have b: "numOwned (host sys h) \<le> r" by simp
    show "(fst (snd e), snd (snd e)) \<noteq> (h, r)"
      using a b by (auto simp: e')
  qed
  have "r \<in> fst ` set (mirrors (host sys h))"
    using assms(3) by force
  then have "dist_current (nodeData (host (sync_push sys) h) r) = 4294967295"
    unfolding sync_push_def
    using fold_sync_push_host_at [OF frame_eq_refl ne] assms(2) by simp
  then show ?thesis by (simp add: infinity_def)
qed

theorem sync_push_resets_mirrors_witness:
  "wf_partition two_hosts \<and> 1 < numHosts two_hosts \<and> mirrors (host two_hosts 1) = [(1, 0, 0)] \<and>
   dist_current (nodeData (host (sync_push two_hosts) 1) 1) = 4294967295"
proof -
  have a: "1 < numHosts two_hosts" and b: "mirrors (host two_hosts 1) = [(1, 0, 0)]"
    by (simp_all add: two_hosts_def)
  then have c: "(1, 0, 0) \<in> set (mirrors (host two_hosts 1))" by simp
  from sync_push_resets_mirrors [OF two_hosts_wf a c] two_hosts_wf a b show ?thesis by simp
qed

text \<open>
  The claim C2 as the specification words it (the mirror holds the sentinel max/4) fails
  on the two-host example: after \<^verbatim>\<open>sync_push\<close> the mirror on host 1 holds 4294967295
  and the sentinel is 1073741823; the master on host 0 has taken the minimum 3.
\<close>

theorem sync_push_mirror_counterexample:
  "(1, 0, 0) \<in> set (mirrors (host two_hosts 1)) \<and>
   dist_current (nodeData (host (sync_push two_hosts) 1) 1) = 4294967295 \<and>
   infinity = 1073741823 \<and>
   dist_current (nodeData (host (sync_push two_hosts) 1) 1) \<noteq> infinity \<and>
   dist_current (nodeData (host (sync_push two_hosts) 0) 0) = 3"
  by code_simp


subsection \<open>The loop of \<^verbatim>\<open>BFS::go\<close>\<close>

lemma BFS_loop_unfold:
  "BFS_loop sys =
     (if 0 < DGAccumulator_reduce (BFS_round sys)
      then (fst (BFS_loop (BFS_round sys)),
            DGAccumulator_reduce (BFS_round sys) # snd (BFS_loop (BFS_round sys)))
      else (BFS_round sys, [DGAccumulator_reduce (BFS_round sys)]))"
proof -
  have "0 \<le> DGAccumulator_reduce (BFS_round sys)"
    using BFS_round_measure [of sys] by simp
  then have "DGAccumulator_reduce (BFS_round sys) \<noteq> 0 \<longleftrightarrow> 0 < DGAccumulator_reduce (BFS_round sys)"
    by linarith
  then show ?thesis
    by (subst BFS_loop.simps) (simp add: Let_def split: prod.split)
qed

lemma BFS_loop_trace:
  "snd (BFS_loop s) \<noteq> [] \<and>
   fst (BFS_loop s) = (BFS_round ^^ length (snd (BFS_loop s))) s \<and>
   (\<forall>k<length (snd (BFS_loop s)).
      snd (BFS_loop s) ! k = DGAccumulator_reduce ((BFS_round ^^ Suc k) s)) \<and>
   (\<forall>k. Suc k < length (snd (BFS_loop s)) \<longrightarrow> 0 < snd (BFS_loop s) ! k) \<and>
   last (snd (BFS_loop s)) = 0"
proof (induction s rule: BFS_loop.induct)
  case (1 sys)
  let ?s' = "BFS_round sys"
  let ?r = "DGAccumulator_reduce ?s'"
  show ?case
  proof (cases "0 < ?r")
    case False
    then have e: "BFS_loop sys = (?s', [?r])"
      by (subst BFS_loop_unfold) simp
    have "0 \<le> ?r" using BFS_round_measure [of sys] by simp
    with False have "?r = 0" by simp
    then show ?thesis by (simp add: e)
  next
    case True
    then have e: "BFS_loop sys = (fst (BFS_loop ?s'), ?r # snd (BFS_loop ?s'))"
      by (subst BFS_loop_unfold) simp
    from True have "?r \<noteq> 0" by simp
    from "1.IH" [OF refl refl this]
    have ih: "snd (BFS_loop ?s') \<noteq> []"
      "fst (BFS_loop ?s') = (BFS_round ^^ length (snd (BFS_loop ?s'))) ?s'"
      "\<forall>k<length (snd (BFS_loop ?s')).
          snd (BFS_loop ?s') ! k = DGAccumulator_reduce ((BFS_round ^^ Suc k) ?s')"
      "\<forall>k. Suc k < length (snd (BFS_loop ?s')) \<longrightarrow> 0 < snd (BFS_loop ?s') ! k"
      "last (snd (BFS_loop ?s')) = 0"
      by blast+
    have a: "snd (BFS_loop sys) \<noteq> []" by (simp add: e)
    have b: "fst (BFS_loop sys) = (BFS_round ^^ length (snd (BFS_loop sys))) sys"
      by (simp add: e ih(2) funpow_swap1)
    have c: "\<forall>k<length (snd (BFS_loop sys)).
               snd (BFS_loop sys) ! k = DGAccumulator_reduce ((BFS_round ^^ Suc k) sys)"
    proof (intro allI impI)
      fix k assume k: "k < length (snd (BFS_loop sys))"
      show "snd (BFS_loop sys) ! k = DGAccumulator_reduce ((BFS_round ^^ Suc k) sys)"
      proof (cases k)
        case 0
        then show ?thesis by (simp add: e)
      next
        case (Suc j)
        with k have "j < length (snd (BFS_loop ?s'))" by (simp add: e)
        with ih(3) have "snd (BFS_loop ?s') ! j = DGAccumulator_reduce ((BFS_round ^^ Suc j) ?s')"
          by blast
        then show ?thesis by (simp add: e Suc funpow_swap1)
      qed
    qed
    have d: "\<forall>k. Suc k < length (snd (BFS_loop sys)) \<longrightarrow> 0 < snd (BFS_loop sys) ! k"
    proof (intro allI impI)
      fix k assume k: "Suc k < length (snd (BFS_loop sys))"
      show "0 < snd (BFS_loop sys) ! k"
      proof (cases k)
        case 0
        then show ?thesis using True by (simp add: e)
      next
        case (Suc j)
        with k have "Suc j < length (snd (BFS_loop ?s'))" by (simp add: e)
        with ih(4) have "0 < snd (BFS_loop ?s') ! j" by blast
        then show ?thesis by (simp add: e Suc)
      qed
    qed
    have f: "last (snd (BFS_loop sys)) = 0"
      using ih(1) ih(5) by (simp add: e)
    from a b c d f show ?thesis by blast
  qed
qed

lemma on_hosts_accum_irrelevant:
  "BFS_round (on_hosts (\<lambda>g. g\<lparr>DGAccumulator_accum := a\<rparr>) sys) = BFS_round sys"
proof -
  have "on_hosts (\<lambda>g. do_all (numOwned g) BFS_op (DGAccumulator_reset g))
          (on_hosts (\<lambda>g. g\<lparr>DGAccumulator_accum := a\<rparr>) sys) =
        on_hosts (\<lambda>g. do_all (numOwned g) BFS_op (DGAccumulator_reset g)) sys"
    by (simp add: on_hosts_def DGAccumulator_reset_def fun_eq_iff)
  then show ?thesis by (simp add: BFS_round_def)
qed

text \<open>Evaluation of the two-host example: the per-host phase as a fold over the hosts.\<close>

lemma fold_upd_hosts:
  "fold (\<lambda>h H. H(h := f (host sys h))) hs H0 =
     (\<lambda>h. if h \<in> set hs then f (host sys h) else H0 h)"
  by (induction hs arbitrary: H0) (auto simp: fun_eq_iff)

lemma on_hosts_fold:
  "on_hosts f sys =
     sys\<lparr>host := fold (\<lambda>h H. H(h := f (host sys h))) [0..<numHosts sys] (host sys)\<rparr>"
  by (simp add: on_hosts_def fold_upd_hosts)

lemma upt_small: "[0..<2] = [0, 1]" "[0..<1] = [0]"
  by (simp_all add: upt_rec)

lemmas bfs_eval = InitializeGraph_go_def FirstItr_BFS_go_def BFS_round_def
  on_hosts_fold do_all_def sync_push_def sync_push_host_def push_mirror_def sync_pull_def
  sync_pull_host_def pull_mirror_def set_node_def Syncer_0_extract_def Syncer_0_reduce_def
  Syncer_0_reset_def SyncerPull_0_extract_def SyncerPull_0_setVal_def InitializeGraph_op_def
  FirstItr_BFS_op_def BFS_op_def DGAccumulator_reset_def DGAccumulator_reduce_def atomicMin_def
  infinity_def Let_def upt_small

text \<open>
  The run of the two-host example: three rounds, and v0, v1, v2 end at distances 0, 1, 2.
\<close>

lemma zigzag_run:
  "(case BFS_main cap_opts zigzag of
      (fin, rs) \<Rightarrow>
        rs = [1, 1, 0] \<and>
        dist_current (nodeData (host fin 0) 0) = 0 \<and>
        dist_current (nodeData (host fin 1) 0) = 1 \<and>
        dist_current (nodeData (host fin 0) 1) = 2)"
  by (simp add: BFS_main_def BFS_go_def BFS_loop.simps zigzag_def cap_opts_def bfs_eval)

lemma zigzag_trace: "snd (BFS_main cap_opts zigzag) = [1, 1, 0]"
  using zigzag_run by (simp add: case_prod_unfold)


text \<open>
  C6. \<^verbatim>\<open>BFS::go\<close> runs the bootstrap once and then the loop. A round starts by resetting
  the accumulator (the result of a round does not depend on the accumulator values it
  starts from), and the loop repeats exactly when the all-reduce at the end of the
  round is greater than 0. Hence at least one steady round is executed, the values
  returned by the all-reduce are those of the successive rounds from the bootstrap
  state, all of them but the last are greater than 0, the last is 0, and the final
  state is the state after that round.
\<close>

theorem BFS_go_rounds:
  "BFS_go sys = BFS_loop (FirstItr_BFS_go sys) \<and>
   BFS_loop s =
     (if 0 < DGAccumulator_reduce (BFS_round s)
      then (fst (BFS_loop (BFS_round s)),
            DGAccumulator_reduce (BFS_round s) # snd (BFS_loop (BFS_round s)))
      else (BFS_round s, [DGAccumulator_reduce (BFS_round s)])) \<and>
   BFS_round (on_hosts (\<lambda>g. g\<lparr>DGAccumulator_accum := a\<rparr>) s) = BFS_round s \<and>
   snd (BFS_go sys) \<noteq> [] \<and>
   fst (BFS_go sys) = (BFS_round ^^ length (snd (BFS_go sys))) (FirstItr_BFS_go sys) \<and>
   (\<forall>k<length (snd (BFS_go sys)).
      snd (BFS_go sys) ! k = DGAccumulator_reduce ((BFS_round ^^ Suc k) (FirstItr_BFS_go sys))) \<and>
   (\<forall>k. Suc k < length (snd (BFS_go sys)) \<longrightarrow> 0 < snd (BFS_go sys) ! k) \<and>
   last (snd (BFS_go sys)) = 0"
proof -
  have a: "BFS_go sys = BFS_loop (FirstItr_BFS_go sys)"
    by (simp add: BFS_go_def)
  note b = BFS_loop_unfold [of s]
  note c = on_hosts_accum_irrelevant [of a s]
  from BFS_loop_trace [of "FirstItr_BFS_go sys"]
  have d: "snd (BFS_go sys) \<noteq> []"
    "fst (BFS_go sys) = (BFS_round ^^ length (snd (BFS_go sys))) (FirstItr_BFS_go sys)"
    "\<forall>k<length (snd (BFS_go sys)).
       snd (BFS_go sys) ! k = DGAccumulator_reduce ((BFS_round ^^ Suc k) (FirstItr_BFS_go sys))"
    "\<forall>k. Suc k < length (snd (BFS_go sys)) \<longrightarrow> 0 < snd (BFS_go sys) ! k"
    "last (snd (BFS_go sys)) = 0"
    unfolding BFS_go_def by blast+
  from a b c d show ?thesis by blast
qed

theorem BFS_go_rounds_witness:
  "snd (BFS_go (InitializeGraph_go cap_opts zigzag)) = [1, 1, 0] \<and>
   DGAccumulator_reduce (BFS_round (FirstItr_BFS_go (InitializeGraph_go cap_opts zigzag))) = 1 \<and>
   DGAccumulator_reduce
     (BFS_round (BFS_round (BFS_round (FirstItr_BFS_go (InitializeGraph_go cap_opts zigzag))))) = 0 \<and>
   fst (BFS_go (InitializeGraph_go cap_opts zigzag)) =
     BFS_round (BFS_round (BFS_round (FirstItr_BFS_go (InitializeGraph_go cap_opts zigzag))))"
proof -
  let ?S = "InitializeGraph_go cap_opts zigzag"
  have t: "snd (BFS_go ?S) = [1, 1, 0]"
    using zigzag_trace by (simp add: BFS_main_def)
  from BFS_go_rounds [where sys = ?S]
  have f: "fst (BFS_go ?S) = (BFS_round ^^ length (snd (BFS_go ?S))) (FirstItr_BFS_go ?S)"
    and r: "\<forall>k<length (snd (BFS_go ?S)).
              snd (BFS_go ?S) ! k = DGAccumulator_reduce ((BFS_round ^^ Suc k) (FirstItr_BFS_go ?S))"
    by blast+
  from r have "0 < length (snd (BFS_go ?S)) \<longrightarrow>
      snd (BFS_go ?S) ! 0 = DGAccumulator_reduce ((BFS_round ^^ Suc 0) (FirstItr_BFS_go ?S))"
    by blast
  then have r0: "snd (BFS_go ?S) ! 0 =
        DGAccumulator_reduce ((BFS_round ^^ Suc 0) (FirstItr_BFS_go ?S))"
    by (simp add: t)
  from r have "Suc (Suc 0) < length (snd (BFS_go ?S)) \<longrightarrow>
      snd (BFS_go ?S) ! Suc (Suc 0) =
        DGAccumulator_reduce ((BFS_round ^^ Suc (Suc (Suc 0))) (FirstItr_BFS_go ?S))"
    by blast
  then have r2: "snd (BFS_go ?S) ! Suc (Suc 0) =
        DGAccumulator_reduce ((BFS_round ^^ Suc (Suc (Suc 0))) (FirstItr_BFS_go ?S))"
    by (simp add: t)
  have f3: "fst (BFS_go ?S) = (BFS_round ^^ Suc (Suc (Suc 0))) (FirstItr_BFS_go ?S)"
    using f by (simp add: t)
  from t r0 r2 f3 show ?thesis by simp
qed


text \<open>
  C1. The cap is not implemented: \<^verbatim>\<open>BFS::go\<close> never reads \<^verbatim>\<open>maxIterations\<close>. With
  \<^verbatim>\<open>maxIterations = 1\<close> on the two-host line v0 -> v1 -> v2 with source v0 the loop
  executes three steady rounds (the all-reduce returns 1, 1, 0), more than the cap.
\<close>

theorem BFS_main_exceeds_maxIterations:
  "maxIterations cap_opts = 1 \<and>
   snd (BFS_main cap_opts zigzag) = [1, 1, 0] \<and>
   unat (maxIterations cap_opts) < length (snd (BFS_main cap_opts zigzag))"
proof -
  have a: "maxIterations cap_opts = 1" by (simp add: cap_opts_def)
  have b: "snd (BFS_main cap_opts zigzag) = [1, 1, 0]" by (rule zigzag_trace)
  have c: "unat (maxIterations cap_opts) < length (snd (BFS_main cap_opts zigzag))"
    unfolding a b by simp
  from a b c show ?thesis by blast
qed

end
